theory Spec2Isabelle
  imports Main "HOL-Library.Word"
begin

section \<open>The memory block of the Z80 emulator (memory.h)\<close>

text \<open>
  The class template \<^verbatim>\<open>z80::memory<BEGIN, END>\<close> owns a \<^verbatim>\<open>std::array\<close> of
  \<^verbatim>\<open>END - BEGIN + 1\<close> bytes and a \<^verbatim>\<open>column_count\<close>. The template parameters are
  carried in the record, next to the two data members.
\<close>

subsection \<open>Types\<close>

text \<open>
  Modelled from the spec: the header \<^verbatim>\<open>z80_memory_types.h\<close>, which declares
  \<^verbatim>\<open>address_t\<close> and \<^verbatim>\<open>byte_t\<close>, is not among the sources. The block stores
  unsigned 8-bit values and the dump labels an address with 4 hexadecimal digits, so
  \<^verbatim>\<open>byte_t\<close> is taken as \<^verbatim>\<open>uint8_t\<close> and \<^verbatim>\<open>address_t\<close> as the Z80's 16-bit
  \<^verbatim>\<open>uint16_t\<close>. Arithmetic on two \<^verbatim>\<open>address_t\<close> operands is then done in
  \<^verbatim>\<open>int\<close> (integer promotion) and wraps only when the result is stored back into an
  \<^verbatim>\<open>address_t\<close>; \<^verbatim>\<open>size_t\<close> is 64 bits wide.
\<close>

type_synonym address_t = "16 word"
type_synonym byte_t = "8 word"

text \<open>
  The exceptions of the source: \<^verbatim>\<open>std::array::at\<close> throws \<^verbatim>\<open>std::out_of_range\<close>
  (\<open>OutOfRange\<close>); the other four are the \<^verbatim>\<open>std::runtime_error\<close>s of \<^verbatim>\<open>load\<close>
  ("file not found": \<open>NotFound\<close>; "memory overflow: file size": \<open>SizeMismatch\<close>), of
  \<^verbatim>\<open>dump\<close>, \<^verbatim>\<open>fill\<close> and \<^verbatim>\<open>save\<close> ("memory overflow: requested ... size":
  \<open>Overflow\<close>) and of \<^verbatim>\<open>save\<close> ("file already exists": \<open>AlreadyExists\<close>).
  \<open>Undefined\<close> marks the one place where the source reads the array through a raw
  pointer without a check and the read leaves the array.
\<close>

datatype error = NotFound | SizeMismatch | Overflow | OutOfRange | AlreadyExists | Undefined

record memory =
  BEGIN :: address_t
  END :: address_t
  column_count :: nat
  bytes :: "byte_t list"

text \<open>The file system the block loads from and saves to: a path names at most one file.\<close>

type_synonym filesystem = "string \<rightharpoonup> byte_t list"

subsection \<open>Size and element access\<close>

text \<open>The conversion of an \<^verbatim>\<open>int\<close> to the unsigned 64-bit \<^verbatim>\<open>size_t\<close>: a negative value
  wraps around.\<close>

definition to_size_t :: "int \<Rightarrow> nat" where
  "to_size_t x = nat (x mod 2 ^ 64)"

text \<open>\<^verbatim>\<open>size()\<close>: \<^verbatim>\<open>END - BEGIN + 1\<close>, computed in \<^verbatim>\<open>int\<close> and returned as \<^verbatim>\<open>size_t\<close>.
  The array type has this many elements, so the template only compiles for
  \<^verbatim>\<open>BEGIN <= END\<close>.\<close>

definition size_m :: "memory \<Rightarrow> nat" where
  "size_m m = to_size_t (uint (END m) - uint (BEGIN m) + 1)"

definition PARAGRAPH :: nat where
  "PARAGRAPH = 16"

text \<open>\<^verbatim>\<open>std::array::at\<close>, reading and writing.\<close>

definition at :: "byte_t list \<Rightarrow> nat \<Rightarrow> error + byte_t" where
  "at bs i = (if i < length bs then Inr (bs ! i) else Inl OutOfRange)"

definition at_put :: "byte_t list \<Rightarrow> nat \<Rightarrow> byte_t \<Rightarrow> error + byte_t list" where
  "at_put bs i b = (if i < length bs then Inr (bs[i := b]) else Inl OutOfRange)"

text \<open>\<^verbatim>\<open>(size_t)addr - BEGIN\<close>: a subtraction of two \<^verbatim>\<open>size_t\<close> values, modulo \<open>2^64\<close>.\<close>

definition offset_of :: "memory \<Rightarrow> address_t \<Rightarrow> nat" where
  "offset_of m addr = to_size_t (uint addr - uint (BEGIN m))"

text \<open>\<^verbatim>\<open>byte_t operator[](address_t addr) const\<close>.\<close>

definition read_m :: "memory \<Rightarrow> address_t \<Rightarrow> error + byte_t" where
  "read_m m addr = at (bytes m) (offset_of m addr)"

text \<open>\<^verbatim>\<open>byte_t& operator[](address_t addr)\<close>, assigned to: \<^verbatim>\<open>m[addr] = v\<close>.\<close>

definition write_m :: "memory \<Rightarrow> address_t \<Rightarrow> byte_t \<Rightarrow> error + memory" where
  "write_m m addr v =
     (case at_put (bytes m) (offset_of m addr) v of
        Inl e \<Rightarrow> Inl e
      | Inr bs \<Rightarrow> Inr (m\<lparr>bytes := bs\<rparr>))"

definition address_begin :: "memory \<Rightarrow> address_t" where
  "address_begin m = BEGIN m"

definition address_end :: "memory \<Rightarrow> address_t" where
  "address_end m = END m"

text \<open>What every constructor establishes: the bounds are ordered, the array has
  \<^verbatim>\<open>size()\<close> elements and \<^verbatim>\<open>column_count\<close> is the smaller of \<^verbatim>\<open>size()\<close> and
  \<^verbatim>\<open>PARAGRAPH\<close>.\<close>

definition valid_block :: "memory \<Rightarrow> bool" where
  "valid_block m \<longleftrightarrow> BEGIN m \<le> END m \<and> length (bytes m) = size_m m
     \<and> column_count m = (if size_m m < PARAGRAPH then size_m m else PARAGRAPH)"

subsection \<open>fill\<close>

text \<open>
  \<^verbatim>\<open>for (auto i{ begin }; i < end; ++i) bytes->at((size_t)begin + i) = b;\<close>
  with \<open>begin\<close> and \<open>end\<close> as they are after the two compound assignments. The
  counter is an \<^verbatim>\<open>address_t\<close> below \<open>end\<close>, so \<^verbatim>\<open>++i\<close> does not wrap. An exception
  leaves the bytes written so far in place.
\<close>

function fill_loop :: "address_t \<Rightarrow> address_t \<Rightarrow> byte_t \<Rightarrow> address_t \<Rightarrow> byte_t list
    \<Rightarrow> byte_t list \<times> error option" where
  "fill_loop begin end b i bs =
     (if i < end then
        (case at_put bs (unat begin + unat i) b of
           Inl e \<Rightarrow> (bs, Some e)
         | Inr bs' \<Rightarrow> fill_loop begin end b (i + 1) bs')
      else (bs, None))"
  by pat_completeness auto
termination
proof (relation "measure (\<lambda>(begin, end, b, i, bs). unat end - unat i)")
  show "wf (measure (\<lambda>(begin, end, b, i, bs). unat end - unat i))"
    by simp
next
  fix lo hi :: address_t and b :: byte_t and i :: address_t and bs bs' :: "byte_t list"
  assume "i < hi"
  then have lt: "unat i < unat hi"
    by (simp add: word_less_nat_alt)
  moreover have "unat hi < 2 ^ 16"
    using unsigned_less [of hi] by simp
  ultimately have "unat (i + 1) = unat i + 1"
    by (simp add: unat_word_ariths)
  with lt show "((lo, hi, b, i + 1, bs'), (lo, hi, b, i, bs))
          \<in> measure (\<lambda>(begin, end, b, i, bs). unat end - unat i)"
    by simp
qed

declare fill_loop.simps [simp del]

text \<open>
  \<^verbatim>\<open>void fill(byte_t b, address_t begin = BEGIN, address_t end = END + 1)\<close>.
  \<^verbatim>\<open>end -= begin\<close> and \<^verbatim>\<open>begin -= BEGIN\<close> store into an \<^verbatim>\<open>address_t\<close>;
  \<^verbatim>\<open>fill_size\<close> is the \<^verbatim>\<open>int\<close> difference of the two new values, converted to
  \<^verbatim>\<open>size_t\<close> for the comparison with \<^verbatim>\<open>size()\<close>.
\<close>

definition fill :: "memory \<Rightarrow> byte_t \<Rightarrow> address_t \<Rightarrow> address_t \<Rightarrow> memory \<times> error option" where
  "fill m b begin end =
     (let end' = end - begin;
          begin' = begin - BEGIN m;
          fill_size = uint end' - uint begin'
      in if to_size_t fill_size > size_m m then (m, Some Overflow)
         else (case fill_loop begin' end' b begin' (bytes m) of
                 (bs, r) \<Rightarrow> (m\<lparr>bytes := bs\<rparr>, r)))"

text \<open>The default arguments: \<^verbatim>\<open>END + 1\<close> is an \<^verbatim>\<open>int\<close>, stored into an \<^verbatim>\<open>address_t\<close>.\<close>

definition fill_default :: "memory \<Rightarrow> byte_t \<Rightarrow> memory \<times> error option" where
  "fill_default m b = fill m b (BEGIN m) (END m + 1)"

subsection \<open>dump\<close>

text \<open>\<^verbatim>\<open>std::format\<close> with \<^verbatim>\<open>{:04X}\<close> on a 16-bit value and with \<^verbatim>\<open>{:02X}\<close> on a
  \<^verbatim>\<open>uint8_t\<close>: upper-case hexadecimal digits, padded with zeros to the width.\<close>

definition hex_digit :: "nat \<Rightarrow> char" where
  "hex_digit d = ''0123456789ABCDEF'' ! (d mod 16)"

definition format_04X :: "address_t \<Rightarrow> string" where
  "format_04X a =
     [hex_digit (unat a div 4096), hex_digit (unat a div 256), hex_digit (unat a div 16),
      hex_digit (unat a)]"

definition format_02X :: "byte_t \<Rightarrow> string" where
  "format_02X b = [hex_digit (unat b div 16), hex_digit (unat b)]"

text \<open>
  \<^verbatim>\<open>char c = ...; if ((c == ASCII_DEL) || (c >= ASCII_NULL) && (c < ASCII_SPACE)) '.' else c\<close>:
  the byte is read as a (signed) \<^verbatim>\<open>char\<close>, and \<^verbatim>\<open>&&\<close> binds tighter than \<^verbatim>\<open>||\<close>.
  The character written otherwise is the byte itself.
\<close>

definition ASCII_NULL :: int where "ASCII_NULL = 0"
definition ASCII_SPACE :: int where "ASCII_SPACE = 32"
definition ASCII_DEL :: int where "ASCII_DEL = 127"

definition put_char :: "byte_t \<Rightarrow> char" where
  "put_char b =
     (let c = sint b
      in if c = ASCII_DEL \<or> (c \<ge> ASCII_NULL \<and> c < ASCII_SPACE) then CHR ''.''
         else char_of (unat b))"

text \<open>The two loops of \<^verbatim>\<open>dump_paragraph\<close> over the columns; \<open>out\<close> is the text written
  to \<^verbatim>\<open>std::cout\<close> so far, and an exception keeps what was written before it. The
  counter is an \<^verbatim>\<open>address_t\<close> below \<^verbatim>\<open>column_count\<close>, which no constructor sets above
  \<^verbatim>\<open>PARAGRAPH\<close>, so it does not wrap.\<close>

function hex_columns :: "memory \<Rightarrow> nat \<Rightarrow> nat \<Rightarrow> string \<Rightarrow> string \<times> error option" where
  "hex_columns m addr i out =
     (if i < column_count m then
        (case at (bytes m) (addr + i) of
           Inl e \<Rightarrow> (out, Some e)
         | Inr b \<Rightarrow> hex_columns m addr (i + 1) (out @ format_02X b @ '' ''))
      else (out, None))"
  by pat_completeness auto
termination
  by (relation "measure (\<lambda>(m, addr, i, out). column_count m - i)") auto

declare hex_columns.simps [simp del]

function char_columns :: "memory \<Rightarrow> nat \<Rightarrow> nat \<Rightarrow> string \<Rightarrow> string \<times> error option" where
  "char_columns m addr i out =
     (if i < column_count m then
        (case at (bytes m) (addr + i) of
           Inl e \<Rightarrow> (out, Some e)
         | Inr b \<Rightarrow> char_columns m addr (i + 1) (out @ [put_char b]))
      else (out, None))"
  by pat_completeness auto
termination
  by (relation "measure (\<lambda>(m, addr, i, out). column_count m - i)") auto

declare char_columns.simps [simp del]

text \<open>\<^verbatim>\<open>void dump_paragraph(address_t addr) const\<close>; \<^verbatim>\<open>addr -= BEGIN\<close> wraps at 16 bits.\<close>

definition dump_paragraph :: "memory \<Rightarrow> address_t \<Rightarrow> string \<Rightarrow> string \<times> error option" where
  "dump_paragraph m addr out =
     (let out1 = out @ ''$'' @ format_04X addr @ '' '';
          addr' = addr - BEGIN m
      in case hex_columns m (unat addr') 0 out1 of
           (out2, Some e) \<Rightarrow> (out2, Some e)
         | (out2, None) \<Rightarrow>
             (case char_columns m (unat addr') 0 (out2 @ ''| '') of
                (out3, Some e) \<Rightarrow> (out3, Some e)
              | (out3, None) \<Rightarrow> (out3 @ '' |'' @ [CHR 0x0A], None)))"

text \<open>
  \<^verbatim>\<open>for (auto i{ begin }; i < end; i += PARAGRAPH) dump_paragraph(i);\<close>
  The counter is an \<^verbatim>\<open>address_t\<close>, so \<^verbatim>\<open>i += PARAGRAPH\<close> wraps at 16 bits and the loop
  need not end: \<open>None\<close> is a run that never returns.
\<close>

partial_function (option) dump_loop ::
    "memory \<Rightarrow> address_t \<Rightarrow> address_t \<Rightarrow> string \<Rightarrow> (string \<times> error option) option" where
  "dump_loop m i end out =
     (if i < end then
        (if snd (dump_paragraph m i out) = None
         then dump_loop m (i + of_nat PARAGRAPH) end (fst (dump_paragraph m i out))
         else Some (dump_paragraph m i out))
      else Some (out, None))"

text \<open>\<^verbatim>\<open>void dump(address_t begin = BEGIN, address_t end = END + 1) const\<close>:
  the text written to \<^verbatim>\<open>std::cout\<close> and the exception thrown, if any.\<close>

definition dump :: "memory \<Rightarrow> address_t \<Rightarrow> address_t \<Rightarrow> (string \<times> error option) option" where
  "dump m begin end =
     (let dump_size = uint end - uint begin
      in if to_size_t dump_size > size_m m then Some ([], Some Overflow)
         else dump_loop m begin end [])"

definition dump_default :: "memory \<Rightarrow> (string \<times> error option) option" where
  "dump_default m = dump m (BEGIN m) (END m + 1)"

declare dump_loop.simps [code]

subsection \<open>load and save\<close>

text \<open>\<^verbatim>\<open>void load(const std::string& filename)\<close>: \<^verbatim>\<open>f.read\<close> takes the first
  \<^verbatim>\<open>size()\<close> bytes of the file, which has at least that many.\<close>

definition load :: "filesystem \<Rightarrow> memory \<Rightarrow> string \<Rightarrow> error + memory" where
  "load fs m filename =
     (case fs filename of
        None \<Rightarrow> Inl NotFound
      | Some file \<Rightarrow>
          if length file < size_m m then Inl SizeMismatch
          else Inr (m\<lparr>bytes := take (size_m m) file @ drop (size_m m) (bytes m)\<rparr>))"

text \<open>
  \<^verbatim>\<open>void save(const std::string& filename, address_t begin = BEGIN, address_t end = END + 1) const\<close>:
  the file system after the call and the exception thrown, if any. \<^verbatim>\<open>f.write\<close> copies \<^verbatim>\<open>save_size\<close> bytes from
  \<^verbatim>\<open>bytes->data() + begin\<close> with no bounds check.
\<close>

definition save :: "filesystem \<Rightarrow> memory \<Rightarrow> string \<Rightarrow> address_t \<Rightarrow> address_t
    \<Rightarrow> filesystem \<times> error option" where
  "save fs m filename begin end =
     (let save_size = uint end - uint begin;
          begin' = begin - BEGIN m
      in if to_size_t save_size > size_m m then (fs, Some Overflow)
         else if fs filename = None then
           (if unat begin' + nat save_size \<le> length (bytes m)
            then (fs(filename \<mapsto> take (nat save_size) (drop (unat begin') (bytes m))), None)
            else (fs, Some Undefined))
         else (fs, Some AlreadyExists))"

definition save_default :: "filesystem \<Rightarrow> memory \<Rightarrow> string \<Rightarrow> filesystem \<times> error option" where
  "save_default fs m filename = save fs m filename (BEGIN m) (END m + 1)"

subsection \<open>Constructors\<close>

text \<open>The member initialisers shared by the three constructors: \<^verbatim>\<open>column_count\<close> and a
  value-initialised (all zero) array.\<close>

definition memory_init :: "address_t \<Rightarrow> address_t \<Rightarrow> memory" where
  "memory_init B E =
     (let m = \<lparr>BEGIN = B, END = E, column_count = 0, bytes = []\<rparr>
      in m\<lparr>column_count := (if size_m m < PARAGRAPH then size_m m else PARAGRAPH),
           bytes := replicate (size_m m) 0\<rparr>)"

text \<open>\<^verbatim>\<open>memory(byte_t b)\<close>: \<^verbatim>\<open>fill(b)\<close> with the default arguments.\<close>

definition memory_byte :: "address_t \<Rightarrow> address_t \<Rightarrow> byte_t \<Rightarrow> error + memory" where
  "memory_byte B E b =
     (case fill_default (memory_init B E) b of
        (m, None) \<Rightarrow> Inr m
      | (m, Some e) \<Rightarrow> Inl e)"

text \<open>\<^verbatim>\<open>memory(const std::string& filename)\<close>.\<close>

definition memory_file :: "address_t \<Rightarrow> address_t \<Rightarrow> filesystem \<Rightarrow> string \<Rightarrow> error + memory" where
  "memory_file B E fs filename = load fs (memory_init B E) filename"

text \<open>\<^verbatim>\<open>memory()\<close>: \<^verbatim>\<open>randomize()\<close> stores at every offset a byte computed from a draw
  of the shared generator; \<open>rnd k\<close> is the byte it stores at offset \<open>k\<close>.\<close>

definition memory_random :: "address_t \<Rightarrow> address_t \<Rightarrow> (nat \<Rightarrow> byte_t) \<Rightarrow> memory" where
  "memory_random B E rnd = (memory_init B E)\<lparr>bytes := map rnd [0..<size_m (memory_init B E)]\<rparr>"

subsection \<open>fill in the older copy of the header\<close>

text \<open>
  The repository holds an older \<^verbatim>\<open>memory.h\<close> as well, whose \<^verbatim>\<open>fill\<close> has no size check:
  \<^verbatim>\<open>end -= begin; begin -= BEGIN; for (auto i{ 0 }; i < end; ++i) bytes->at(begin + i) = b;\<close>
  The counter is an \<^verbatim>\<open>int\<close> that counts up from 0 to at most 65535.
\<close>

function fill_loop_part_000 :: "address_t \<Rightarrow> address_t \<Rightarrow> byte_t \<Rightarrow> nat \<Rightarrow> byte_t list
    \<Rightarrow> byte_t list \<times> error option" where
  "fill_loop_part_000 begin end b i bs =
     (if i < unat end then
        (case at_put bs (unat begin + i) b of
           Inl e \<Rightarrow> (bs, Some e)
         | Inr bs' \<Rightarrow> fill_loop_part_000 begin end b (i + 1) bs')
      else (bs, None))"
  by pat_completeness auto
termination
  by (relation "measure (\<lambda>(begin, end, b, i, bs). unat end - i)") auto

declare fill_loop_part_000.simps [simp del]

definition fill_part_000 :: "memory \<Rightarrow> address_t \<Rightarrow> address_t \<Rightarrow> byte_t \<Rightarrow> memory \<times> error option" where
  "fill_part_000 m begin end b =
     (let end' = end - begin;
          begin' = begin - BEGIN m
      in case fill_loop_part_000 begin' end' b 0 (bytes m) of
           (bs, r) \<Rightarrow> (m\<lparr>bytes := bs\<rparr>, r))"

subsection \<open>The rows of a dump\<close>

text \<open>The text of the hexadecimal columns of a row, the bytes a row at address \<open>a\<close>
  shows, whether they all lie in the array, and the row as \<^verbatim>\<open>dump_paragraph\<close> writes it.\<close>

definition hex_text :: "byte_t list \<Rightarrow> string" where
  "hex_text bs = concat (map (\<lambda>b. format_02X b @ '' '') bs)"

definition row_bytes :: "memory \<Rightarrow> address_t \<Rightarrow> byte_t list" where
  "row_bytes m a = take (column_count m) (drop (unat (a - BEGIN m)) (bytes m))"

definition row_fits :: "memory \<Rightarrow> address_t \<Rightarrow> bool" where
  "row_fits m a \<longleftrightarrow> unat (a - BEGIN m) + column_count m \<le> length (bytes m)"

definition dump_row :: "memory \<Rightarrow> address_t \<Rightarrow> string" where
  "dump_row m a =
     ''$'' @ format_04X a @ '' '' @ hex_text (row_bytes m a) @ ''| ''
       @ map put_char (row_bytes m a) @ '' |'' @ [CHR 0x0A]"


text \<open>
  The row in the words of the specification:
  \<^verbatim>\<open>"${AAAA} " + (for each column: "{BB} ") + "| " + (for each column: char-or-'.') + " |\n"\<close>,
  where a byte equal to 0 to 31 or to 127 is shown as a dot and any other byte as itself.
\<close>

definition char_or_dot :: "byte_t \<Rightarrow> char" where
  "char_or_dot b = (if unat b < 32 \<or> unat b = 127 then CHR ''.'' else char_of (unat b))"

definition row_text :: "address_t \<Rightarrow> byte_t list \<Rightarrow> string" where
  "row_text a bs =
     ''$'' @ format_04X a @ '' '' @ concat (map (\<lambda>b. format_02X b @ '' '') bs) @ ''| ''
       @ map char_or_dot bs @ '' |'' @ [CHR 0x0A]"


subsection \<open>Example blocks\<close>

text \<open>The 16-byte block at \<open>0x1000..0x100F\<close> holding zeros, used to instantiate the
  theorems below.\<close>

definition block16 :: memory where
  "block16 = \<lparr>BEGIN = 0x1000, END = 0x100F, column_count = 16, bytes = replicate 16 0\<rparr>"

text \<open>The 16-byte block at \<open>0x1000..0x100F\<close> holding \<open>0xFF\<close> everywhere, and a 32-byte
  block at \<open>0x1000..0x101F\<close> holding eight times each of \<open>A\<close>, \<open>B\<close>, \<open>C\<close>, \<open>D\<close>.\<close>

definition block_ff :: memory where
  "block_ff = \<lparr>BEGIN = 0x1000, END = 0x100F, column_count = 16, bytes = replicate 16 0xFF\<rparr>"



text \<open>A file system with one file of five bytes.\<close>

definition rom_fs :: filesystem where
  "rom_fs = [''rom.bin'' \<mapsto> [1, 2, 3, 4, 5]]"

section \<open>Properties\<close>

subsection \<open>Address arithmetic\<close>

lemma unat16: "unat (w :: address_t) < 65536"
  using unsigned_less [of w] by simp

lemma wrap64:
  fixes x y :: nat
  assumes "x < 65537" "y < 65536"
  shows "to_size_t (int x - int y) = (if y \<le> x then x - y else 2 ^ 64 - (y - x))"
proof (cases "y \<le> x")
  case True
  then have "(int x - int y) mod 2 ^ 64 = int x - int y"
    using assms by (intro mod_pos_pos_trivial) auto
  with True show ?thesis by (simp add: to_size_t_def nat_diff_distrib)
next
  case False
  then have "(int x - int y + 2 ^ 64) mod 2 ^ 64 = int x - int y + 2 ^ 64"
    using assms by (intro mod_pos_pos_trivial) auto
  then have "(int x - int y) mod 2 ^ 64 = int x - int y + 2 ^ 64"
    by simp
  moreover have "nat (int x - int y + 2 ^ 64) = 2 ^ 64 - (y - x)"
    using False assms by (simp add: nat_diff_distrib nat_add_distrib)
  ultimately show ?thesis using False by (simp add: to_size_t_def)
qed

lemma to_size_t_diff:
  "to_size_t (uint e - uint b) =
     (if b \<le> e then unat e - unat b else 2 ^ 64 - (unat b - unat e))" for b e :: address_t
  using unat16 [of e] unat16 [of b] wrap64 [of "unat e" "unat b"]
  by (simp add: uint_nat word_le_nat_alt del: of_nat_unat)

lemma size_m_eq: "BEGIN m \<le> END m \<Longrightarrow> size_m m = unat (END m) - unat (BEGIN m) + 1"
proof -
  assume "BEGIN m \<le> END m"
  then have le: "unat (BEGIN m) \<le> unat (END m)"
    by (simp add: word_le_nat_alt)
  have "uint (END m) - uint (BEGIN m) + 1 = int (unat (END m) + 1) - int (unat (BEGIN m))"
    by (simp add: uint_nat del: of_nat_unat)
  then have "size_m m = to_size_t (int (unat (END m) + 1) - int (unat (BEGIN m)))"
    by (simp only: size_m_def)
  also have "\<dots> = unat (END m) + 1 - unat (BEGIN m)"
    using le unat16 [of "END m"] unat16 [of "BEGIN m"]
    by (subst wrap64) simp_all
  finally show ?thesis
    using le by simp
qed

lemma offset_of_eq:
  "offset_of m a = (if BEGIN m \<le> a then unat a - unat (BEGIN m)
                    else 2 ^ 64 - (unat (BEGIN m) - unat a))"
  by (simp add: offset_of_def to_size_t_diff)

lemma size_m_le: "BEGIN m \<le> END m \<Longrightarrow> size_m m \<le> 65536"
  using unat16 [of "END m"] by (simp add: size_m_eq)

lemma in_range_offset:
  assumes "valid_block m" "BEGIN m \<le> a" "a \<le> END m"
  shows "offset_of m a < length (bytes m)"
  using assms by (simp add: valid_block_def size_m_eq offset_of_eq word_le_nat_alt)

lemma out_of_range_offset:
  assumes "valid_block m" "a < BEGIN m \<or> END m < a"
  shows "\<not> offset_of m a < length (bytes m)"
proof -
  have len: "length (bytes m) = unat (END m) - unat (BEGIN m) + 1" and le: "unat (BEGIN m) \<le> unat (END m)"
    using assms(1) by (simp_all add: valid_block_def size_m_eq word_le_nat_alt)
  show ?thesis
  proof (cases "a < BEGIN m")
    case True
    then have "offset_of m a = 2 ^ 64 - (unat (BEGIN m) - unat a)"
      by (simp add: offset_of_eq)
    then show ?thesis
      using len unat16 [of "END m"] unat16 [of "BEGIN m"] by simp
  next
    case False
    then have "unat (BEGIN m) \<le> unat a" "unat (END m) < unat a"
      using assms(2) by (auto simp: word_le_nat_alt word_less_nat_alt)
    then show ?thesis
      using len le by (simp add: offset_of_eq word_le_nat_alt)
  qed
qed

lemma offset_of_inj: "offset_of m a = offset_of m a' \<Longrightarrow> a = a'"
proof -
  assume eq: "offset_of m a = offset_of m a'"
  have "unat a = unat a'"
    using eq unat16 [of a] unat16 [of a'] unat16 [of "BEGIN m"]
    by (simp add: offset_of_eq word_le_nat_alt split: if_splits)
  then show ?thesis by (simp add: word_unat_eq_iff)
qed

lemma write_m_frame:
  assumes "write_m m a v = Inr m'"
  shows "(\<forall>a'. a' \<noteq> a \<longrightarrow> read_m m' a' = read_m m a')
     \<and> BEGIN m' = BEGIN m \<and> END m' = END m \<and> size_m m' = size_m m
     \<and> column_count m' = column_count m \<and> length (bytes m') = length (bytes m)"
proof -
  from assms have m': "m' = m\<lparr>bytes := (bytes m)[offset_of m a := v]\<rparr>"
    by (auto simp: write_m_def at_put_def split: if_splits)
  have "read_m m' a' = read_m m a'" if "a' \<noteq> a" for a'
  proof -
    from that have "offset_of m a' \<noteq> offset_of m a"
      using offset_of_inj by blast
    then show ?thesis
      by (simp add: m' read_m_def at_def offset_of_def)
  qed
  then show ?thesis
    by (simp add: m' size_m_def)
qed


lemma valid_block16: "valid_block block16"
  by (simp add: valid_block_def block16_def size_m_def to_size_t_def PARAGRAPH_def)

subsection \<open>Read and write\<close>

text \<open>
  C1. For every address \<open>a\<close> with \<open>begin_address \<le> a \<le> end_address\<close> and every byte
  \<open>v\<close>, writing \<open>v\<close> at \<open>a\<close> succeeds and reading \<open>a\<close> from the block afterwards
  returns \<open>v\<close>.
\<close>

theorem write_then_read:
  assumes "valid_block m" "BEGIN m \<le> a" "a \<le> END m"
  shows "\<exists>m'. write_m m a v = Inr m' \<and> read_m m' a = Inr v"
  using in_range_offset [OF assms]
  by (simp add: write_m_def read_m_def at_def at_put_def offset_of_def)

theorem write_then_read_witness:
  "valid_block block16 \<and> BEGIN block16 \<le> 0x1004 \<and> 0x1004 \<le> END block16
   \<and> (\<exists>m'. write_m block16 0x1004 0x41 = Inr m' \<and> read_m m' 0x1004 = Inr 0x41)"
proof -
  have r: "BEGIN block16 \<le> 0x1004" "0x1004 \<le> END block16"
    by (simp_all add: block16_def)
  show ?thesis
    using write_then_read [OF valid_block16 r, of "0x41"] valid_block16 r by simp
qed

text \<open>
  C2. For every address \<open>a\<close> outside \<open>[begin_address, end_address]\<close>, reading \<open>a\<close> and
  writing any byte \<open>v\<close> at \<open>a\<close> both fail with \<open>OutOfRange\<close>, for every block.
\<close>

theorem out_of_range_fails:
  assumes "valid_block m" "a < BEGIN m \<or> END m < a"
  shows "read_m m a = Inl OutOfRange \<and> write_m m a v = Inl OutOfRange"
  using out_of_range_offset [OF assms]
  by (simp add: write_m_def read_m_def at_def at_put_def)

theorem out_of_range_fails_witness:
  "valid_block block16 \<and> (0x0FFF < BEGIN block16 \<or> END block16 < 0x0FFF)
   \<and> read_m block16 0x0FFF = Inl OutOfRange \<and> write_m block16 0x0FFF 0x41 = Inl OutOfRange"
proof -
  have r: "0x0FFF < BEGIN block16 \<or> END block16 < 0x0FFF"
    by (simp add: block16_def)
  show ?thesis
    using out_of_range_fails [OF valid_block16 r, of "0x41"] valid_block16 r by simp
qed

text \<open>
  C10. For every block, every in-range address \<open>a\<close> and every byte \<open>v\<close>, the write at
  \<open>a\<close> changes only the byte stored at \<open>a\<close>: reading any other address gives what it
  gave before, and \<open>begin_address\<close>, \<open>end_address\<close>, \<open>size()\<close> and the dump column
  count are unchanged.
\<close>

theorem write_changes_one_byte:
  assumes "valid_block m" "BEGIN m \<le> a" "a \<le> END m"
  shows "\<exists>m'. write_m m a v = Inr m'
     \<and> (\<forall>a'. a' \<noteq> a \<longrightarrow> read_m m' a' = read_m m a')
     \<and> BEGIN m' = BEGIN m \<and> END m' = END m \<and> size_m m' = size_m m
     \<and> column_count m' = column_count m"
proof -
  obtain m' where w: "write_m m a v = Inr m'"
    using in_range_offset [OF assms] by (simp add: write_m_def at_put_def)
  from write_m_frame [OF w] w show ?thesis by simp
qed

theorem write_changes_one_byte_witness:
  "valid_block block16 \<and> BEGIN block16 \<le> 0x1004 \<and> 0x1004 \<le> END block16
   \<and> (\<exists>m'. write_m block16 0x1004 0x41 = Inr m'
     \<and> (\<forall>a'. a' \<noteq> 0x1004 \<longrightarrow> read_m m' a' = read_m block16 a')
     \<and> BEGIN m' = BEGIN block16 \<and> END m' = END block16 \<and> size_m m' = size_m block16
     \<and> column_count m' = column_count block16)"
proof -
  have r: "BEGIN block16 \<le> 0x1004" "0x1004 \<le> END block16"
    by (simp_all add: block16_def)
  show ?thesis
    using write_changes_one_byte [OF valid_block16 r, of "0x41"] valid_block16 r by simp
qed

subsection \<open>fill\<close>

lemma size_m_bytes_update [simp]: "size_m (m\<lparr>bytes := bs\<rparr>) = size_m m"
  by (simp add: size_m_def)

lemma fill_loop_ok:
  "unat lo + unat hi \<le> length bs \<Longrightarrow> i \<le> hi \<Longrightarrow>
   fill_loop lo hi b i bs =
     (take (unat lo + unat i) bs @ replicate (unat hi - unat i) b @ drop (unat lo + unat hi) bs, None)"
proof (induction lo hi b i bs rule: fill_loop.induct)
  case (1 lo hi b i bs)
  show ?case
  proof (cases "i < hi")
    case False
    with "1.prems" have "i = hi" by simp
    then show ?thesis
      by (simp add: fill_loop.simps [of lo hi b hi bs])
  next
    case True
    then have lt: "unat i < unat hi"
      by (simp add: word_less_nat_alt)
    moreover have "unat hi < 2 ^ 16"
      using unsigned_less [of hi] by simp
    ultimately have suc: "unat (i + 1) = unat i + 1"
      by (simp add: unat_word_ariths)
    then have le: "i + 1 \<le> hi"
      using lt by (simp add: word_le_nat_alt)
    have inb: "unat lo + unat i < length bs"
      using lt "1.prems"(1) by simp
    have put: "at_put bs (unat lo + unat i) b = Inr (bs[unat lo + unat i := b])"
      using inb by (simp add: at_put_def)
    have "fill_loop lo hi b i bs = fill_loop lo hi b (i + 1) (bs[unat lo + unat i := b])"
      using True put by (simp add: fill_loop.simps [of lo hi b i bs])
    also have "\<dots> = (take (unat lo + unat (i + 1)) (bs[unat lo + unat i := b])
         @ replicate (unat hi - unat (i + 1)) b @ drop (unat lo + unat hi) (bs[unat lo + unat i := b]), None)"
      using "1.IH" [OF True put] "1.prems"(1) le by simp
    also have "take (unat lo + unat (i + 1)) (bs[unat lo + unat i := b]) = take (unat lo + unat i) bs @ [b]"
      using inb by (simp add: suc take_Suc_conv_app_nth)
    also have "drop (unat lo + unat hi) (bs[unat lo + unat i := b]) = drop (unat lo + unat hi) bs"
      using lt by simp
    finally have "fill_loop lo hi b i bs = ((take (unat lo + unat i) bs @ [b]) @
        replicate (unat hi - unat (i + 1)) b @ drop (unat lo + unat hi) bs, None)" .
    moreover have "([b] @ replicate (unat hi - unat (i + 1)) b) = replicate (unat hi - unat i) b"
      using lt by (simp add: suc flip: replicate_Suc)
    ultimately show ?thesis by simp
  qed
qed

lemma fill_from_begin:
  assumes "valid_block m" "unat (e - BEGIN m) \<le> size_m m"
  shows "fill m b (BEGIN m) e =
     (m\<lparr>bytes := replicate (unat (e - BEGIN m)) b @ drop (unat (e - BEGIN m)) (bytes m)\<rparr>, None)"
proof -
  let ?n = "e - BEGIN m"
  have len: "length (bytes m) = size_m m"
    using assms(1) by (simp add: valid_block_def)
  have chk: "\<not> to_size_t (uint ?n - uint (0 :: address_t)) > size_m m"
    using assms(2) by (simp only: to_size_t_diff) simp
  have "fill_loop 0 ?n b 0 (bytes m) =
      (take (unat (0::address_t) + unat (0::address_t)) (bytes m) @ replicate (unat ?n - unat (0::address_t)) b
         @ drop (unat (0::address_t) + unat ?n) (bytes m), None)"
    using assms(2) len by (intro fill_loop_ok) simp_all
  then show ?thesis
    using chk by (simp add: fill_def Let_def)
qed

lemma default_end_le:
  assumes "valid_block m"
  shows "unat (END m + 1 - BEGIN m) \<le> size_m m"
proof -
  have sz: "size_m m = unat (END m) - unat (BEGIN m) + 1"
    using assms by (simp add: valid_block_def size_m_eq)
  have eq: "END m + 1 - BEGIN m = (END m - BEGIN m) + 1" by simp
  have "unat (END m - BEGIN m) = unat (END m) - unat (BEGIN m)"
    using assms by (simp add: valid_block_def unat_sub)
  then have "unat ((END m - BEGIN m) + 1) \<le> unat (END m) - unat (BEGIN m) + 1"
    by (simp add: unat_word_ariths)
  then show ?thesis
    unfolding eq sz .
qed

lemma default_end_eq:
  assumes "valid_block m" "unat (END m) < 65535"
  shows "unat (END m + 1 - BEGIN m) = size_m m"
proof -
  have sz: "size_m m = unat (END m) - unat (BEGIN m) + 1"
    using assms by (simp add: valid_block_def size_m_eq)
  have eq: "END m + 1 - BEGIN m = (END m - BEGIN m) + 1" by simp
  have "unat (END m - BEGIN m) = unat (END m) - unat (BEGIN m)"
    using assms by (simp add: valid_block_def unat_sub)
  then have "unat ((END m - BEGIN m) + 1) = unat (END m) - unat (BEGIN m) + 1"
    using assms(2) by (simp add: unat_word_ariths)
  then show ?thesis
    unfolding eq sz .
qed

lemma fill_default_ok:
  assumes "valid_block m"
  shows "fill_default m b =
     (m\<lparr>bytes := replicate (unat (END m + 1 - BEGIN m)) b
                     @ drop (unat (END m + 1 - BEGIN m)) (bytes m)\<rparr>, None)"
  unfolding fill_default_def
  by (rule fill_from_begin [OF assms default_end_le [OF assms]])

lemma valid_block_init: "B \<le> E \<Longrightarrow> valid_block (memory_init B E)"
  by (simp add: valid_block_def memory_init_def size_m_def Let_def)

lemma memory_byte_ok:
  assumes "B \<le> E"
  shows "\<exists>m. memory_byte B E b = Inr m \<and> valid_block m \<and> BEGIN m = B \<and> END m = E
     \<and> (unat E < 65535 \<longrightarrow> bytes m = replicate (size_m m) b)"
proof -
  let ?ini = "memory_init B E"
  let ?k = "unat (END ?ini + 1 - BEGIN ?ini)"
  let ?m = "?ini\<lparr>bytes := replicate ?k b @ drop ?k (bytes ?ini)\<rparr>"
  have v0: "valid_block ?ini" by (rule valid_block_init [OF assms])
  have k: "?k \<le> size_m ?ini" by (rule default_end_le [OF v0])
  have f: "fill_default ?ini b = (?m, None)" by (rule fill_default_ok [OF v0])
  have be: "BEGIN ?ini = B" "END ?ini = E"
    by (simp_all add: memory_init_def Let_def)
  have sz: "size_m ?m = size_m ?ini" by (simp add: size_m_def)
  have len0: "length (bytes ?ini) = size_m ?ini" and cc0: "column_count ?ini = (if size_m ?ini < PARAGRAPH then size_m ?ini else PARAGRAPH)"
    and le0: "BEGIN ?ini \<le> END ?ini"
    using v0 unfolding valid_block_def by blast+
  have "length (bytes ?m) = size_m ?ini"
    using k len0 by simp
  then have v: "valid_block ?m"
    unfolding valid_block_def sz using cc0 le0 by simp
  have "bytes ?m = replicate (size_m ?m) b" if "unat E < 65535"
    using default_end_eq [OF v0] that v0 by (simp add: be sz valid_block_def)
  then show ?thesis
    using f v be by (simp add: memory_byte_def)
qed

lemma memory_random_ok: "B \<le> E \<Longrightarrow> valid_block (memory_random B E rnd)"
  using valid_block_init [of B E] by (simp add: valid_block_def memory_random_def size_m_def)


lemma fill_loop_part_000_ok:
  "unat lo + unat hi \<le> length bs \<Longrightarrow> i \<le> unat hi \<Longrightarrow>
   fill_loop_part_000 lo hi b i bs =
     (take (unat lo + i) bs @ replicate (unat hi - i) b @ drop (unat lo + unat hi) bs, None)"
proof (induction lo hi b i bs rule: fill_loop_part_000.induct)
  case (1 lo hi b i bs)
  show ?case
  proof (cases "i < unat hi")
    case False
    with "1.prems" have "i = unat hi" by simp
    then show ?thesis
      by (subst fill_loop_part_000.simps) simp
  next
    case True
    have inb: "unat lo + i < length bs"
      using True "1.prems"(1) by simp
    have put: "at_put bs (unat lo + i) b = Inr (bs[unat lo + i := b])"
      using inb by (simp add: at_put_def)
    have "fill_loop_part_000 lo hi b i bs = fill_loop_part_000 lo hi b (i + 1) (bs[unat lo + i := b])"
      using True put by (subst fill_loop_part_000.simps) simp
    also have "\<dots> = (take (unat lo + (i + 1)) (bs[unat lo + i := b])
         @ replicate (unat hi - (i + 1)) b @ drop (unat lo + unat hi) (bs[unat lo + i := b]), None)"
      using "1.IH" [OF True put] "1.prems"(1) True by simp
    also have "take (unat lo + (i + 1)) (bs[unat lo + i := b]) = take (unat lo + i) bs @ [b]"
      using inb by (simp add: take_Suc_conv_app_nth)
    also have "drop (unat lo + unat hi) (bs[unat lo + i := b]) = drop (unat lo + unat hi) bs"
      using True by simp
    finally have "fill_loop_part_000 lo hi b i bs = ((take (unat lo + i) bs @ [b]) @
        replicate (unat hi - (i + 1)) b @ drop (unat lo + unat hi) bs, None)" .
    moreover have "([b] @ replicate (unat hi - (i + 1)) b) = replicate (unat hi - i) b"
      using True by (simp flip: replicate_Suc)
    ultimately show ?thesis by simp
  qed
qed

lemma fill_part_000_span:
  assumes "valid_block m" "BEGIN m \<le> b" "b \<le> e" "unat e \<le> unat (END m) + 1"
  shows "fill_part_000 m b e v =
     (m\<lparr>bytes := take (unat b - unat (BEGIN m)) (bytes m) @ replicate (unat e - unat b) v
                     @ drop (unat e - unat (BEGIN m)) (bytes m)\<rparr>, None)"
proof -
  have len: "length (bytes m) = unat (END m) - unat (BEGIN m) + 1"
    and le: "unat (BEGIN m) \<le> unat (END m)"
    using assms(1) by (simp_all add: valid_block_def size_m_eq word_le_nat_alt)
  have ub: "unat (BEGIN m) \<le> unat b" "unat b \<le> unat e"
    using assms(2,3) by (simp_all add: word_le_nat_alt)
  have lo: "unat (b - BEGIN m) = unat b - unat (BEGIN m)" and hi: "unat (e - b) = unat e - unat b"
    using assms(2,3) by (simp_all add: unat_sub)
  have fit: "unat (b - BEGIN m) + unat (e - b) \<le> length (bytes m)"
    unfolding lo hi len using ub le assms(4) by linarith
  have sum: "unat (b - BEGIN m) + unat (e - b) = unat e - unat (BEGIN m)"
    unfolding lo hi using ub by linarith
  have "fill_loop_part_000 (b - BEGIN m) (e - b) v 0 (bytes m) =
      (take (unat (b - BEGIN m) + 0) (bytes m) @ replicate (unat (e - b) - 0) v
         @ drop (unat (b - BEGIN m) + unat (e - b)) (bytes m), None)"
    using fit by (intro fill_loop_part_000_ok) simp_all
  then show ?thesis
    by (simp add: fill_part_000_def Let_def sum) (simp add: lo hi)
qed

lemma fill_part_000_read:
  assumes "valid_block m" "BEGIN m \<le> b" "b \<le> e" "unat e \<le> unat (END m) + 1" "b \<le> a" "a < e"
  shows "read_m (fst (fill_part_000 m b e v)) a = Inr v"
proof -
  let ?off = "unat b - unat (BEGIN m)"
  let ?bs = "take ?off (bytes m) @ replicate (unat e - unat b) v @ drop (unat e - unat (BEGIN m)) (bytes m)"
  have len: "length (bytes m) = unat (END m) - unat (BEGIN m) + 1"
    and le: "unat (BEGIN m) \<le> unat (END m)"
    using assms(1) by (simp_all add: valid_block_def size_m_eq word_le_nat_alt)
  have ub: "unat (BEGIN m) \<le> unat b" "unat b \<le> unat a" "unat a < unat e"
    using assms(2,5,6) by (simp_all add: word_le_nat_alt word_less_nat_alt)
  have off: "length (take ?off (bytes m)) = ?off"
    using len ub assms(4) by simp
  have "BEGIN m \<le> a"
    using ub by (simp add: word_le_nat_alt)
  then have o: "offset_of m a = ?off + (unat a - unat b)"
    using ub by (simp add: offset_of_eq)
  have "?bs ! (length (take ?off (bytes m)) + (unat a - unat b))
      = (replicate (unat e - unat b) v @ drop (unat e - unat (BEGIN m)) (bytes m)) ! (unat a - unat b)"
    by (rule nth_append_length_plus)
  also have "\<dots> = v"
  proof -
    have "unat a - unat b < unat e - unat b"
      using ub by linarith
    then show ?thesis by (simp add: nth_append)
  qed
  finally have "?bs ! (?off + (unat a - unat b)) = v"
    by (simp only: off)
  moreover have "?off + (unat a - unat b) < length ?bs"
    using ub off by simp
  ultimately show ?thesis
    using o by (simp add: fill_part_000_span [OF assms(1-4)] read_m_def at_def offset_of_def)
qed

text \<open>
  C3. For every block and every span \<open>[begin, end)\<close> longer than \<open>size()\<close>, each of
  \<open>dump\<close>, \<open>fill\<close> and \<open>save\<close> fails with \<open>Overflow\<close>, and none of them raises
  \<open>Overflow\<close> for a span of at most \<open>size()\<close> bytes. \<open>fill\<close> does neither: on the
  16-byte block at \<open>0x1000\<close> the 4-byte span \<open>[0x1008, 0x100C)\<close> raises \<open>Overflow\<close>, and
  the 18-byte span \<open>[0x1004, 0x1016)\<close> raises \<open>OutOfRange\<close> instead of \<open>Overflow\<close>.
\<close>

theorem fill_overflow_check_misplaced:
  "fill block16 0xFF 0x1008 0x100C = (block16, Some Overflow)
   \<and> snd (fill block16 0xFF 0x1004 0x1016) = Some OutOfRange"
  by (simp add: fill_def block16_def size_m_def to_size_t_def fill_loop.simps at_put_def)

text \<open>
  C4. For every block and every span \<open>[begin, end)\<close> inside it, \<open>fill\<close> succeeds and
  sets every byte at the addresses in \<open>[begin, end)\<close> to the value. It does not: on the
  16-byte block of zeros at \<open>0x1000\<close>, filling \<open>[0x1004, 0x1008)\<close> with \<open>0xFF\<close>
  returns normally and leaves the block as it was, so the byte at \<open>0x1004\<close> is still 0.
\<close>

theorem fill_inner_span_not_written:
  "fill block16 0xFF 0x1004 0x1008 = (block16, None) \<and> read_m block16 0x1004 = Inr 0"
  by (simp add: fill_def block16_def size_m_def to_size_t_def fill_loop.simps read_m_def offset_of_def at_def)

subsection \<open>load and save\<close>

lemma unat_add_of_nat:
  "unat b + k < 65536 \<Longrightarrow> unat (b + of_nat k) = unat b + k" for b :: address_t
  by (simp add: unat_word_ariths unat_of_nat)

lemma read_m_nth:
  assumes "BEGIN m \<le> a" "unat a - unat (BEGIN m) < length (bytes m)"
  shows "read_m m a = Inr (bytes m ! (unat a - unat (BEGIN m)))"
  using assms by (simp add: read_m_def at_def offset_of_eq)

lemma save_overflow:
  assumes "e < b \<or> size_m m < unat e - unat b" "BEGIN m \<le> END m"
  shows "save fs m f b e = (fs, Some Overflow)"
proof -
  have "size_m m < to_size_t (uint e - uint b)"
    using assms size_m_le [OF assms(2)] unat16 [of b] unat16 [of e]
    by (auto simp: to_size_t_diff word_le_nat_alt word_less_nat_alt)
  then show ?thesis
    by (simp add: save_def Let_def)
qed

lemma save_no_overflow:
  assumes "b \<le> e" "unat e - unat b \<le> size_m m"
  shows "save fs m f b e =
     (if fs f = None then
        (if unat (b - BEGIN m) + (unat e - unat b) \<le> length (bytes m)
         then (fs(f \<mapsto> take (unat e - unat b) (drop (unat (b - BEGIN m)) (bytes m))), None)
         else (fs, Some Undefined))
      else (fs, Some AlreadyExists))"
proof -
  have "\<not> size_m m < to_size_t (uint e - uint b)"
    using assms by (simp add: to_size_t_diff)
  moreover have "nat (uint e - uint b) = unat e - unat b"
    using assms(1) by (simp add: uint_nat word_le_nat_alt nat_diff_distrib del: of_nat_unat)
  ultimately show ?thesis
    by (simp add: save_def Let_def)
qed

text \<open>
  C5. Constructing a block from a file fails with \<open>NotFound\<close> when the path does not
  exist and with \<open>SizeMismatch\<close> when the file is shorter than \<open>size()\<close>; otherwise it
  succeeds and the storage holds exactly the first \<open>size()\<close> bytes of the file, offset 0
  holding the first byte, whatever follows them in the file.
\<close>

theorem memory_file_cases:
  "(fs filename = None \<longrightarrow> memory_file B E fs filename = Inl NotFound)
   \<and> (\<forall>file. fs filename = Some file \<and> length file < size_m (memory_init B E)
         \<longrightarrow> memory_file B E fs filename = Inl SizeMismatch)
   \<and> (\<forall>file. fs filename = Some file \<and> size_m (memory_init B E) \<le> length file
         \<longrightarrow> (\<exists>m. memory_file B E fs filename = Inr m \<and> BEGIN m = B \<and> END m = E
               \<and> size_m m = size_m (memory_init B E)
               \<and> column_count m = (if size_m m < PARAGRAPH then size_m m else PARAGRAPH)
               \<and> bytes m = take (size_m m) file))"
  by (auto simp: memory_file_def load_def memory_init_def Let_def size_m_def)

theorem memory_file_cases_witness:
  "(Map.empty ''rom.bin'' = None \<and> memory_file 0x1000 0x1003 Map.empty ''rom.bin'' = Inl NotFound)
   \<and> (rom_fs ''rom.bin'' = Some [1, 2, 3, 4, 5] \<and> length [1, 2, 3, 4, 5 :: byte_t] < size_m (memory_init 0x1000 0x100F)
        \<and> memory_file 0x1000 0x100F rom_fs ''rom.bin'' = Inl SizeMismatch)
   \<and> (rom_fs ''rom.bin'' = Some [1, 2, 3, 4, 5] \<and> size_m (memory_init 0x1000 0x1003) \<le> length [1, 2, 3, 4, 5 :: byte_t]
        \<and> (\<exists>m. memory_file 0x1000 0x1003 rom_fs ''rom.bin'' = Inr m \<and> bytes m = [1, 2, 3, 4]))"
proof -
  have s16: "size_m (memory_init 0x1000 0x100F) = 16" and s4: "size_m (memory_init 0x1000 0x1003) = 4"
    by (simp_all add: memory_init_def size_m_def to_size_t_def Let_def)
  have f: "rom_fs ''rom.bin'' = Some [1, 2, 3, 4, 5]"
    by (simp add: rom_fs_def)
  show ?thesis
    using memory_file_cases [of Map.empty "''rom.bin''" "0x1000" "0x1003"]
      memory_file_cases [of rom_fs "''rom.bin''" "0x1000" "0x100F"]
      memory_file_cases [of rom_fs "''rom.bin''" "0x1000" "0x1003"]
    by (auto simp: s16 s4 f)
qed

text \<open>
  C6, as the code has it. \<open>save\<close> checks the span before the path: a span that is
  longer than \<open>size()\<close> (or has its end below its begin) fails with \<open>Overflow\<close>, also
  when the path exists; for any other span an existing path fails with \<open>AlreadyExists\<close>.
  Both failures leave every file as it was. With a span inside the block and a fresh
  path, the new file holds exactly the bytes at the addresses of \<open>[begin, end)\<close>, in
  order, and nothing else.
\<close>

theorem save_cases:
  assumes "valid_block m"
  shows "((e < b \<or> size_m m < unat e - unat b) \<longrightarrow> save fs m f b e = (fs, Some Overflow))
     \<and> (b \<le> e \<and> unat e - unat b \<le> size_m m \<and> fs f \<noteq> None
          \<longrightarrow> save fs m f b e = (fs, Some AlreadyExists))
     \<and> (BEGIN m \<le> b \<and> b \<le> e \<and> unat e \<le> unat (END m) + 1 \<and> fs f = None
          \<longrightarrow> (\<exists>file. save fs m f b e = (fs(f \<mapsto> file), None)
                \<and> length file = unat e - unat b
                \<and> (\<forall>k < unat e - unat b. read_m m (b + of_nat k) = Inr (file ! k))))"
proof (intro conjI impI)
  assume "e < b \<or> size_m m < unat e - unat b"
  then show "save fs m f b e = (fs, Some Overflow)"
    using assms by (intro save_overflow) (simp_all add: valid_block_def)
next
  assume "b \<le> e \<and> unat e - unat b \<le> size_m m \<and> fs f \<noteq> None"
  then show "save fs m f b e = (fs, Some AlreadyExists)"
    by (simp add: save_no_overflow)
next
  assume a: "BEGIN m \<le> b \<and> b \<le> e \<and> unat e \<le> unat (END m) + 1 \<and> fs f = None"
  let ?n = "unat e - unat b"
  let ?off = "unat b - unat (BEGIN m)"
  let ?file = "take ?n (drop ?off (bytes m))"
  have len: "length (bytes m) = unat (END m) - unat (BEGIN m) + 1"
    and sz: "size_m m = unat (END m) - unat (BEGIN m) + 1"
    using assms by (simp_all add: valid_block_def size_m_eq)
  have ub: "unat (BEGIN m) \<le> unat b" "unat b \<le> unat e" "unat (BEGIN m) \<le> unat (END m)"
    using a assms by (simp_all add: word_le_nat_alt valid_block_def)
  have off: "unat (b - BEGIN m) = ?off"
    using a by (simp add: unat_sub)
  have e1: "unat e \<le> unat (END m) + 1"
    using a by blast
  have fit: "?off + ?n \<le> length (bytes m)"
    using e1 ub len by linarith
  have n: "?n \<le> size_m m"
    using e1 ub sz by linarith
  have s: "save fs m f b e = (fs(f \<mapsto> ?file), None)"
    using a n fit by (simp add: save_no_overflow off)
  have l: "length ?file = ?n"
    using fit by simp
  have r: "read_m m (b + of_nat k) = Inr (?file ! k)" if "k < ?n" for k
  proof -
    have "unat b + k < 65536"
      using that unat16 [of e] by simp
    then have u: "unat (b + of_nat k) = unat b + k"
      by (rule unat_add_of_nat)
    then have "BEGIN m \<le> b + of_nat k"
      using ub by (simp add: word_le_nat_alt)
    moreover have "unat (b + of_nat k) - unat (BEGIN m) < length (bytes m)"
      using u that fit ub by simp
    ultimately have "read_m m (b + of_nat k) = Inr (bytes m ! (unat (b + of_nat k) - unat (BEGIN m)))"
      by (rule read_m_nth)
    also have "unat (b + of_nat k) - unat (BEGIN m) = ?off + k"
      using u ub by simp
    also have "bytes m ! (?off + k) = ?file ! k"
      using that fit by simp
    finally show ?thesis .
  qed
  from s l r show "\<exists>file. save fs m f b e = (fs(f \<mapsto> file), None)
                \<and> length file = unat e - unat b
                \<and> (\<forall>k < unat e - unat b. read_m m (b + of_nat k) = Inr (file ! k))"
    by blast
qed

theorem save_cases_witness:
  "valid_block block16
   \<and> ((0x1000 :: address_t) \<le> 0x1020 \<and> size_m block16 < unat (0x1020 :: address_t) - unat (0x1000 :: address_t)
        \<and> save rom_fs block16 ''rom.bin'' 0x1000 0x1020 = (rom_fs, Some Overflow))
   \<and> ((0x1004 :: address_t) \<le> 0x1008 \<and> unat (0x1008 :: address_t) - unat (0x1004 :: address_t) \<le> size_m block16
        \<and> rom_fs ''rom.bin'' \<noteq> None
        \<and> save rom_fs block16 ''rom.bin'' 0x1004 0x1008 = (rom_fs, Some AlreadyExists))
   \<and> (BEGIN block16 \<le> 0x1004 \<and> (0x1004 :: address_t) \<le> 0x1008 \<and> unat (0x1008 :: address_t) \<le> unat (END block16) + 1
        \<and> rom_fs ''ram.bin'' = None
        \<and> (\<exists>file. save rom_fs block16 ''ram.bin'' 0x1004 0x1008 = (rom_fs(''ram.bin'' \<mapsto> file), None)
              \<and> length file = 4 \<and> read_m block16 0x1004 = Inr (file ! 0)))"
proof -
  have s: "size_m block16 = 16" and be: "BEGIN block16 = 0x1000" "END block16 = 0x100F"
    by (simp_all add: block16_def size_m_def to_size_t_def)
  have f: "rom_fs ''rom.bin'' \<noteq> None" "rom_fs ''ram.bin'' = None"
    by (simp_all add: rom_fs_def)
  have c1: "save rom_fs block16 ''rom.bin'' 0x1000 0x1020 = (rom_fs, Some Overflow)"
    using save_cases [OF valid_block16, of "0x1020" "0x1000" rom_fs "''rom.bin''"] by (simp add: s)
  have c2: "save rom_fs block16 ''rom.bin'' 0x1004 0x1008 = (rom_fs, Some AlreadyExists)"
    using save_cases [OF valid_block16, of "0x1008" "0x1004" rom_fs "''rom.bin''"] f by (simp add: s)
  have c3: "\<exists>file. save rom_fs block16 ''ram.bin'' 0x1004 0x1008 = (rom_fs(''ram.bin'' \<mapsto> file), None)
              \<and> length file = 4 \<and> read_m block16 0x1004 = Inr (file ! 0)"
  proof -
    obtain fl where sv: "save rom_fs block16 ''ram.bin'' 0x1004 0x1008 = (rom_fs(''ram.bin'' \<mapsto> fl), None)"
      and ln: "length fl = 4"
      and rd: "\<forall>k<4. read_m block16 (0x1004 + of_nat k) = Inr (fl ! k)"
      using save_cases [OF valid_block16, of "0x1008" "0x1004" rom_fs "''ram.bin''"] f
      by (auto simp: s be)
    from spec [OF rd, of 0] have "read_m block16 (0x1004 + of_nat 0) = Inr (fl ! 0)"
      by simp
    with sv ln show ?thesis by auto
  qed
  show ?thesis
    using valid_block16 c1 c2 c3 f by (simp add: s be)
qed

text \<open>
  C6 as stated says that a save to an existing path fails with \<open>AlreadyExists\<close> for
  every span. On the 16-byte block at \<open>0x1000\<close> the 32-byte span \<open>[0x1000, 0x1020)\<close>
  saved to the existing \<open>rom.bin\<close> fails with \<open>Overflow\<close>.
\<close>

theorem save_existing_path_oversized_span:
  "rom_fs ''rom.bin'' = Some [1, 2, 3, 4, 5]
   \<and> save rom_fs block16 ''rom.bin'' 0x1000 0x1020 = (rom_fs, Some Overflow)"
  by (simp add: save_def block16_def size_m_def to_size_t_def rom_fs_def)

subsection \<open>The block invariant\<close>

text \<open>\<open>valid_block\<close> holds after every constructor and is kept by every operation that
  changes the block, so \<^verbatim>\<open>column_count\<close> stays what the constructor made it.\<close>

lemma fill_loop_length: "length (fst (fill_loop lo hi b i bs)) = length bs"
proof (induction lo hi b i bs rule: fill_loop.induct)
  case (1 lo hi b i bs)
  show ?case
  proof (cases "i < hi \<and> unat lo + unat i < length bs")
    case True
    then have put: "at_put bs (unat lo + unat i) b = Inr (bs[unat lo + unat i := b])"
      by (simp add: at_put_def)
    have "fill_loop lo hi b i bs = fill_loop lo hi b (i + 1) (bs[unat lo + unat i := b])"
      using True put by (subst fill_loop.simps) simp
    then show ?thesis
      using "1.IH" [OF _ put] True by simp
  next
    case False
    then show ?thesis
      by (subst fill_loop.simps) (auto simp: at_put_def)
  qed
qed

lemma fill_valid: "valid_block m \<Longrightarrow> valid_block (fst (fill m b lo hi))"
  using fill_loop_length [of "lo - BEGIN m" "hi - lo" b "lo - BEGIN m" "bytes m"]
  by (auto simp: fill_def Let_def valid_block_def split: prod.splits)

lemma write_m_valid: "valid_block m \<Longrightarrow> write_m m a v = Inr m' \<Longrightarrow> valid_block m'"
  using write_m_frame [of m a v m'] by (simp add: valid_block_def)

lemma load_valid: "valid_block m \<Longrightarrow> load fs m f = Inr m' \<Longrightarrow> valid_block m'"
  by (auto simp: load_def valid_block_def split: option.splits if_splits)

lemma memory_file_valid: "B \<le> E \<Longrightarrow> memory_file B E fs f = Inr m \<Longrightarrow> valid_block m"
  unfolding memory_file_def by (rule load_valid [OF valid_block_init])

subsection \<open>dump\<close>

lemma unat8: "unat (b :: byte_t) < 256"
  using unsigned_less [of b] by simp

lemma uint8: "uint (b :: byte_t) < 256"
  using uint_lt2p [of b] by simp

lemma sint8: "sint (b :: byte_t) = (if uint b < 128 then uint b else uint b - 256)"
proof -
  have s: "sint b = (uint b + 128) mod 256 - 128"
    by (simp add: sint_uint signed_take_bit_eq_take_bit_shift take_bit_eq_mod)
  show ?thesis
  proof (cases "uint b < 128")
    case True
    then have "(uint b + 128) mod 256 = uint b + 128"
      by (intro mod_pos_pos_trivial) auto
    with True s show ?thesis by simp
  next
    case False
    have "uint b + 128 = (uint b - 128) + 256" by simp
    then have "(uint b + 128) mod 256 = ((uint b - 128) + 256) mod 256" by (rule arg_cong)
    also have "\<dots> = (uint b - 128) mod 256" by (rule mod_add_self2)
    also have "\<dots> = uint b - 128"
      using False uint8 [of b] by (intro mod_pos_pos_trivial) auto
    finally have "(uint b + 128) mod 256 = uint b - 128" .
    then show ?thesis using False s by simp
  qed
qed

lemma put_char_eq: "put_char b = char_or_dot b"
proof -
  have u: "unat b < 32 \<longleftrightarrow> uint b < 32" "unat b = 127 \<longleftrightarrow> uint b = 127"
    by (simp_all add: unat_eq_nat_uint nat_less_iff nat_eq_iff del: nat_uint_eq)
  have "sint b = ASCII_DEL \<or> (sint b \<ge> ASCII_NULL \<and> sint b < ASCII_SPACE) \<longleftrightarrow> uint b < 32 \<or> uint b = 127"
    using uint8 [of b] uint_ge_0 [of b]
    by (simp add: sint8 ASCII_DEL_def ASCII_NULL_def ASCII_SPACE_def) arith
  then show ?thesis
    by (simp add: put_char_def char_or_dot_def Let_def u)
qed

lemma hex_columns_ok:
  "addr + column_count m \<le> length (bytes m) \<Longrightarrow> i \<le> column_count m \<Longrightarrow>
   hex_columns m addr i out =
     (out @ hex_text (take (column_count m - i) (drop (addr + i) (bytes m))), None)"
proof (induction m addr i out rule: hex_columns.induct)
  case (1 m addr i out)
  show ?case
  proof (cases "i < column_count m")
    case False
    then show ?thesis
      using "1.prems" by (subst hex_columns.simps) (simp add: hex_text_def)
  next
    case True
    let ?b = "bytes m ! (addr + i)"
    have inb: "addr + i < length (bytes m)"
      using True "1.prems" by simp
    then have at: "at (bytes m) (addr + i) = Inr ?b"
      by (simp add: at_def)
    have "take (column_count m - i) (drop (addr + i) (bytes m))
        = ?b # take (column_count m - (i + 1)) (drop (addr + (i + 1)) (bytes m))"
      using True inb
      by (metis Cons_nth_drop_Suc Suc_diff_Suc add_Suc_right Suc_eq_plus1 take_Suc_Cons)
    then have "hex_text (take (column_count m - i) (drop (addr + i) (bytes m)))
        = (format_02X ?b @ '' '') @ hex_text (take (column_count m - (i + 1)) (drop (addr + (i + 1)) (bytes m)))"
      by (simp add: hex_text_def)
    moreover have "hex_columns m addr i out = hex_columns m addr (i + 1) (out @ format_02X ?b @ '' '')"
      using True at by (simp add: hex_columns.simps [of m addr i out])
    moreover have "hex_columns m addr (i + 1) (out @ format_02X ?b @ '' '')
        = ((out @ format_02X ?b @ '' '') @ hex_text (take (column_count m - (i + 1)) (drop (addr + (i + 1)) (bytes m))), None)"
      using True "1.prems" by (intro "1.IH" [OF True at]) simp_all
    ultimately show ?thesis by simp
  qed
qed

lemma hex_columns_fail:
  "\<not> addr + column_count m \<le> length (bytes m) \<Longrightarrow> i < column_count m \<Longrightarrow>
   snd (hex_columns m addr i out) = Some OutOfRange"
proof (induction m addr i out rule: hex_columns.induct)
  case (1 m addr i out)
  show ?case
  proof (cases "addr + i < length (bytes m)")
    case False
    then show ?thesis
      using "1.prems" by (simp add: hex_columns.simps [of m addr i out] at_def)
  next
    case True
    then have at: "at (bytes m) (addr + i) = Inr (bytes m ! (addr + i))"
      by (simp add: at_def)
    have "i + 1 < column_count m"
      using True "1.prems" by simp
    then have "snd (hex_columns m addr (i + 1) (out @ format_02X (bytes m ! (addr + i)) @ '' '')) = Some OutOfRange"
      using "1.prems" by (intro "1.IH" [OF _ at]) simp_all
    then show ?thesis
      using "1.prems" at by (simp add: hex_columns.simps [of m addr i out])
  qed
qed

lemma char_columns_ok:
  "addr + column_count m \<le> length (bytes m) \<Longrightarrow> i \<le> column_count m \<Longrightarrow>
   char_columns m addr i out =
     (out @ map put_char (take (column_count m - i) (drop (addr + i) (bytes m))), None)"
proof (induction m addr i out rule: char_columns.induct)
  case (1 m addr i out)
  show ?case
  proof (cases "i < column_count m")
    case False
    then show ?thesis
      using "1.prems" by (subst char_columns.simps) simp
  next
    case True
    let ?b = "bytes m ! (addr + i)"
    have inb: "addr + i < length (bytes m)"
      using True "1.prems" by simp
    then have at: "at (bytes m) (addr + i) = Inr ?b"
      by (simp add: at_def)
    have "take (column_count m - i) (drop (addr + i) (bytes m))
        = ?b # take (column_count m - (i + 1)) (drop (addr + (i + 1)) (bytes m))"
      using True inb
      by (metis Cons_nth_drop_Suc Suc_diff_Suc add_Suc_right Suc_eq_plus1 take_Suc_Cons)
    moreover have "char_columns m addr i out = char_columns m addr (i + 1) (out @ [put_char ?b])"
      using True at by (simp add: char_columns.simps [of m addr i out])
    moreover have "char_columns m addr (i + 1) (out @ [put_char ?b])
        = ((out @ [put_char ?b]) @ map put_char (take (column_count m - (i + 1)) (drop (addr + (i + 1)) (bytes m))), None)"
      using True "1.prems" by (intro "1.IH" [OF True at]) simp_all
    ultimately show ?thesis by simp
  qed
qed


lemma dump_paragraph_ok:
  assumes "row_fits m a"
  shows "dump_paragraph m a out = (out @ dump_row m a, None)"
proof -
  let ?off = "unat (a - BEGIN m)"
  have fit: "?off + column_count m \<le> length (bytes m)"
    using assms by (simp add: row_fits_def)
  have h: "hex_columns m ?off 0 out' = (out' @ hex_text (row_bytes m a), None)" for out'
    using hex_columns_ok [OF fit, of 0] by (simp add: row_bytes_def)
  have c: "char_columns m ?off 0 out' = (out' @ map put_char (row_bytes m a), None)" for out'
    using char_columns_ok [OF fit, of 0] by (simp add: row_bytes_def)
  show ?thesis
    by (simp add: dump_paragraph_def Let_def h c dump_row_def)
qed

lemma dump_paragraph_fail:
  assumes "\<not> row_fits m a" "0 < column_count m"
  shows "snd (dump_paragraph m a out) = Some OutOfRange"
proof -
  let ?off = "unat (a - BEGIN m)"
  have "snd (hex_columns m ?off 0 (out @ ''$'' @ format_04X a @ '' '')) = Some OutOfRange"
    using assms by (intro hex_columns_fail) (simp_all add: row_fits_def)
  then show ?thesis
    by (auto simp: dump_paragraph_def Let_def split: prod.splits option.splits)
qed

lemma dump_paragraph_cases:
  assumes "0 < column_count m"
  shows "(row_fits m a \<and> dump_paragraph m a out = (out @ dump_row m a, None))
     \<or> (\<not> row_fits m a \<and> snd (dump_paragraph m a out) = Some OutOfRange)"
  using dump_paragraph_ok [of m a out] dump_paragraph_fail [OF _ assms, of a out] by blast


lemma dump_loop_error:
  assumes "dump_loop m i e out = Some y"
  shows "0 < column_count m \<longrightarrow> snd y = None \<or> snd y = Some OutOfRange"
proof -
  define P where "P = (\<lambda>(m :: memory) (i :: address_t) (e :: address_t) (out :: string) (y :: string \<times> error option).
     0 < column_count m \<longrightarrow> snd y = None \<or> snd y = Some OutOfRange)"
  have "P m i e out y"
  proof (rule dump_loop.raw_induct [where P = P, OF _ assms])
    fix f m i e out y
    assume IH: "\<And>m' i' e' out' y'. f m' i' e' out' = Some y' \<Longrightarrow> P m' i' e' out' y'"
      and body: "(if i < e
          then if snd (dump_paragraph m i out) = None
               then f m (i + of_nat PARAGRAPH) e (fst (dump_paragraph m i out))
               else Some (dump_paragraph m i out)
          else Some (out, None)) = Some y"
    show "P m i e out y"
      unfolding P_def
    proof
      assume cc: "0 < column_count m"
      show "snd y = None \<or> snd y = Some OutOfRange"
      proof (cases "i < e")
        case False
        with body show ?thesis by auto
      next
        case True
        show ?thesis
        proof (cases "snd (dump_paragraph m i out) = None")
          case False
          with True body have "y = dump_paragraph m i out" by auto
          with False dump_paragraph_cases [OF cc, of i out] show ?thesis by auto
        next
          case None: True
          with True body
          have "f m (i + of_nat PARAGRAPH) e (fst (dump_paragraph m i out)) = Some y"
            by simp
          from IH [OF this] cc show ?thesis by (simp add: P_def)
        qed
      qed
    qed
  qed
  then show ?thesis by (simp add: P_def)
qed

lemma rows_step:
  "(d + 15) div 16 = Suc n \<Longrightarrow> (d - 16 + 15) div 16 = n" for d n :: nat
  by arith

lemma dump_loop_rows:
  "unat i + 16 * n < 65536 \<Longrightarrow> n = (unat e - unat i + 15) div 16 \<Longrightarrow>
   (\<forall>k<n. row_fits m (i + of_nat (16 * k))) \<Longrightarrow>
   dump_loop m i e out =
     Some (out @ concat (map (\<lambda>k. dump_row m (i + of_nat (16 * k))) [0..<n]), None)"
proof (induction n arbitrary: i out)
  case 0
  then have "\<not> i < e"
    by (simp add: word_less_nat_alt)
  then show ?case
    by (subst dump_loop.simps) simp
next
  case (Suc n)
  have lt: "i < e"
    using Suc.prems(2) by (simp add: word_less_nat_alt)
  have u: "unat (i + 16) = unat i + 16"
    using Suc.prems(1) by (simp add: unat_word_ariths)
  have fit: "row_fits m i"
    using spec [OF Suc.prems(3), of 0] by simp
  have dp: "dump_paragraph m i out = (out @ dump_row m i, None)"
    by (rule dump_paragraph_ok [OF fit])
  have n': "n = (unat e - unat (i + 16) + 15) div 16"
    using Suc.prems(2) rows_step [of "unat e - unat i" n] by (simp add: u)
  have fits: "\<forall>k<n. row_fits m (i + 16 + of_nat (16 * k))"
  proof (intro allI impI)
    fix k assume "k < n"
    then have "row_fits m (i + of_nat (16 * Suc k))"
      using spec [OF Suc.prems(3), of "Suc k"] by simp
    then show "row_fits m (i + 16 + of_nat (16 * k))"
      by (simp add: add.assoc)
  qed
  have "dump_loop m i e out = dump_loop m (i + 16) e (out @ dump_row m i)"
    using lt dp by (subst dump_loop.simps) (simp add: PARAGRAPH_def)
  also have "\<dots> = Some ((out @ dump_row m i)
      @ concat (map (\<lambda>k. dump_row m (i + 16 + of_nat (16 * k))) [0..<n]), None)"
    using Suc.prems(1) u by (intro Suc.IH n' fits) simp
  also have "(out @ dump_row m i) @ concat (map (\<lambda>k. dump_row m (i + 16 + of_nat (16 * k))) [0..<n])
      = out @ concat (map (\<lambda>k. dump_row m (i + of_nat (16 * k))) [0..<Suc n])"
    by (simp add: map_upt_Suc add.assoc del: upt_Suc)
  finally show ?case .
qed


lemma hex_digit_upper: "hex_digit d \<in> set ''0123456789ABCDEF''"
  unfolding hex_digit_def by (rule nth_mem) simp

lemma format_04X_digits: "length (format_04X a) = 4 \<and> set (format_04X a) \<subseteq> set ''0123456789ABCDEF''"
  using hex_digit_upper by (simp add: format_04X_def)

lemma format_02X_digits: "length (format_02X b) = 2 \<and> set (format_02X b) \<subseteq> set ''0123456789ABCDEF''"
  using hex_digit_upper by (simp add: format_02X_def)

lemma dump_row_eq: "dump_row m a = row_text a (row_bytes m a)"
  by (simp add: dump_row_def row_text_def hex_text_def put_char_eq)

lemma dump_overflow:
  assumes "e < b \<or> size_m m < unat e - unat b" "BEGIN m \<le> END m"
  shows "dump m b e = Some ([], Some Overflow)"
proof -
  have "size_m m < to_size_t (uint e - uint b)"
    using assms size_m_le [OF assms(2)] unat16 [of b] unat16 [of e]
    by (auto simp: to_size_t_diff word_le_nat_alt word_less_nat_alt)
  then show ?thesis
    by (simp add: dump_def Let_def)
qed

lemma dump_no_overflow:
  assumes "b \<le> e" "unat e - unat b \<le> size_m m"
  shows "dump m b e = dump_loop m b e []"
proof -
  have "\<not> size_m m < to_size_t (uint e - uint b)"
    using assms by (simp add: to_size_t_diff)
  then show ?thesis
    by (simp add: dump_def Let_def)
qed

lemma column_count_pos: "valid_block m \<Longrightarrow> 0 < column_count m"
  by (auto simp: valid_block_def size_m_eq PARAGRAPH_def)







lemma dump_within_size_no_overflow:
  assumes "valid_block m" "b \<le> e" "unat e - unat b \<le> size_m m" "dump m b e = Some (out, r)"
  shows "r \<noteq> Some Overflow"
proof -
  have "dump_loop m b e [] = Some (out, r)"
    using assms(4) dump_no_overflow [OF assms(2,3)] by simp
  from dump_loop_error [OF this] column_count_pos [OF assms(1)] show ?thesis
    by auto
qed

lemma replicate16: "replicate 16 x = [x, x, x, x, x, x, x, x, x, x, x, x, x, x, x, x]"
  by (simp add: eval_nat_numeral)

lemma char_of_examples:
  "char_of (255 :: nat) = CHR 0xFF" "char_of (65 :: nat) = CHR ''A''" "char_of (66 :: nat) = CHR ''B''"
  by code_simp+



lemma memory_byte_block_ff: "memory_byte 0x1000 0x100F 0xFF = Inr block_ff"
proof -
  have "valid_block (memory_init 0x1000 0x100F)"
    by (rule valid_block_init) simp
  then show ?thesis
    by (simp add: memory_byte_def fill_default_ok)
       (simp add: memory_init_def size_m_def to_size_t_def PARAGRAPH_def block_ff_def)
qed

lemma dump_row_block_ff:
  "dump_row block_ff 0x1000 =
     ''$1000 FF FF FF FF FF FF FF FF FF FF FF FF FF FF FF FF | '' @ replicate 16 (CHR 0xFF)
       @ '' |'' @ [CHR 0x0A]"
  by (simp add: dump_row_eq row_text_def row_bytes_def block_ff_def format_04X_def format_02X_def
        hex_digit_def char_or_dot_def char_of_examples replicate16)

lemma dump_block_ff:
  "dump block_ff 0x1000 0x1010 =
     Some (''$1000 FF FF FF FF FF FF FF FF FF FF FF FF FF FF FF FF | '' @ replicate 16 (CHR 0xFF)
             @ '' |'' @ [CHR 0x0A], None)"
proof -
  have fit: "row_fits block_ff 0x1000"
    by (simp add: row_fits_def block_ff_def)
  have n: "(1::nat) = (unat (0x1010 :: address_t) - unat (0x1000 :: address_t) + 15) div 16"
    by simp
  have "dump_loop block_ff 0x1000 0x1010 [] =
     Some ([] @ concat (map (\<lambda>k. dump_row block_ff (0x1000 + of_nat (16 * k))) [0..<1]), None)"
    using fit by (intro dump_loop_rows n) simp_all
  moreover have "dump block_ff 0x1000 0x1010 = dump_loop block_ff 0x1000 0x1010 []"
    by (rule dump_no_overflow) (simp_all add: block_ff_def size_m_def to_size_t_def)
  ultimately show ?thesis
    by (simp add: dump_row_block_ff)
qed

lemma dump_default_block_ff: "dump_default block_ff = dump block_ff 0x1000 0x1010"
  by (simp add: dump_default_def block_ff_def)



text \<open>
  C7, as the code has it. For the block with \<open>BEGIN = 0x1000\<close> and \<open>END = 0x100F\<close> built
  with the fill byte \<open>0xFF\<close>, the dump with default arguments writes exactly one line: the
  address \<open>$1000\<close>, sixteen times \<open>FF\<close>, and an ASCII column that holds the sixteen
  bytes \<open>0xFF\<close> themselves, not dots (only the bytes 0 to 31 and 127 become dots).
\<close>

theorem dump_ff_block:
  "memory_byte 0x1000 0x100F 0xFF = Inr block_ff
   \<and> dump_default block_ff =
       Some (''$1000 FF FF FF FF FF FF FF FF FF FF FF FF FF FF FF FF | '' @ replicate 16 (CHR 0xFF)
               @ '' |'' @ [CHR 0x0A], None)"
  by (simp add: memory_byte_block_ff dump_default_block_ff dump_block_ff)

text \<open>
  C7 as stated: the line ends in sixteen dots. The dump of that block is not this line,
  with or without the line break.
\<close>

theorem dump_ff_block_not_dots:
  "memory_byte 0x1000 0x100F 0xFF = Inr block_ff
   \<and> dump_default block_ff \<noteq>
       Some (''$1000 FF FF FF FF FF FF FF FF FF FF FF FF FF FF FF FF | ................ |''
               @ [CHR 0x0A], None)
   \<and> dump_default block_ff \<noteq>
       Some (''$1000 FF FF FF FF FF FF FF FF FF FF FF FF FF FF FF FF | ................ |'', None)"
  by (simp add: memory_byte_block_ff dump_default_block_ff dump_block_ff replicate16)

























end
